theory Spec2Isabelle
  imports Complex_Main "HOL-Library.Multiset" "HOL-Library.Char_ord" "HOL-Library.List_Lexorder"
begin

section \<open>Data model: a pandas DataFrame with a default row index\<close>

text \<open>
  A column is either of a numeric dtype or of object dtype holding strings; a missing
  value (NaN / None) is \<open>None\<close>. A numeric cell is the rational number its float64 or
  int64 value denotes. A frame is the ordered list of its labelled columns; pandas
  allows a label to occur more than once. Rows are identified by position (the default
  RangeIndex).
\<close>

datatype column = NumCol "rat option list" | ObjCol "string option list"

type_synonym dataframe = "(string \<times> column) list"

fun nrows_col :: "column \<Rightarrow> nat" where
  "nrows_col (NumCol xs) = length xs"
| "nrows_col (ObjCol xs) = length xs"

fun is_numeric :: "column \<Rightarrow> bool" where
  "is_numeric (NumCol xs) = True"
| "is_numeric (ObjCol xs) = False"

definition columns :: "dataframe \<Rightarrow> string list" where
  "columns df = map fst df"

definition nrows :: "dataframe \<Rightarrow> nat" where
  "nrows df = (case df of [] \<Rightarrow> 0 | (k, c) # rest \<Rightarrow> nrows_col c)"


text \<open>
  Exceptions by their Python class. \<open>ValueError\<close> is raised in three places: by the
  function's own \<open>raise\<close> with the message \<open>"<rank_col2> not found in dataframe"\<close>, by
  \<open>describe\<close> on a frame without columns, and by pandas when a frame with several
  columns is to be stored as one column.
\<close>

datatype value_error = NotFound string | DescribeEmpty | FrameAsColumn

datatype error =
    ValueError value_error
  | KeyError "string list"  \<comment> \<open>the labels of a list selection that are not columns\<close>
  | TypeError  \<comment> \<open>string minus number\<close>

abbreviation InvalidColumn :: "string \<Rightarrow> error" where
  "InvalidColumn c \<equiv> ValueError (NotFound c)"

abbreviation DescribeNoColumns :: error where
  "DescribeNoColumns \<equiv> ValueError DescribeEmpty"

text \<open>The columns of a frame that carry a given label, in frame order.\<close>

definition labelled :: "dataframe \<Rightarrow> string \<Rightarrow> dataframe" where
  "labelled df v = filter (\<lambda>(k, c). k = v) df"

text \<open>\<open>df[labels]\<close> with a list of labels: a new frame holding, for each label of the
  list in turn, every column that carries it; labels that are not columns raise
  \<open>KeyError\<close>.\<close>

definition getitem_list :: "dataframe \<Rightarrow> string list \<Rightarrow> error + dataframe" where
  "getitem_list df vs =
     (let missing = filter (\<lambda>v. v \<notin> set (columns df)) vs
      in if missing \<noteq> [] then Inl (KeyError missing)
         else Inr (concat (map (labelled df) vs)))"

section \<open>summary_statistics\<close>

text \<open>The result of \<open>describe().T\<close>: one row per described column, one column per
  measure.\<close>

record 'v table =
  index :: "string list"
  measures :: "string list"
  cells :: "'v list list"

definition numeric_measures :: "string list" where
  "numeric_measures = [''count'', ''mean'', ''std'', ''min'', ''25%'', ''50%'', ''75%'', ''max'']"

definition object_measures :: "string list" where
  "object_measures = [''count'', ''unique'', ''top'', ''freq'']"

text \<open>
  \<open>DataFrame.describe()\<close> with its default arguments. A frame without columns is
  refused. Otherwise the numeric columns are described, or, when there is none, all
  (object) columns. The values of the measures are floating-point statistics and are
  left to the parameters \<open>nstat\<close> and \<open>ostat\<close> (measure name and column data to value).
  The result is returned already transposed.
\<close>

fun describe_1d :: "(string \<Rightarrow> rat option list \<Rightarrow> 'v) \<Rightarrow> (string \<Rightarrow> string option list \<Rightarrow> 'v)
    \<Rightarrow> column \<Rightarrow> 'v list" where
  "describe_1d nstat ostat (NumCol xs) = map (\<lambda>m. nstat m xs) numeric_measures"
| "describe_1d nstat ostat (ObjCol xs) = map (\<lambda>m. ostat m xs) object_measures"

definition describe_T :: "(string \<Rightarrow> rat option list \<Rightarrow> 'v) \<Rightarrow> (string \<Rightarrow> string option list \<Rightarrow> 'v)
    \<Rightarrow> dataframe \<Rightarrow> error + 'v table" where
  "describe_T nstat ostat df =
     (if df = [] then Inl DescribeNoColumns
      else let num = filter (\<lambda>(k, c). is_numeric c) df;
               data = (if num = [] then df else num)
           in Inr \<lparr> index = map fst data,
                    measures = (if num = [] then object_measures else numeric_measures),
                    cells = map (\<lambda>(k, c). describe_1d nstat ostat c) data \<rparr>)"

text \<open>
  The function prints at most one line, \<open>Warning: Missing columns: {...}\<close>; the model
  records each printed line by the set it shows. The frame is only read. The result
  is the triple of the frame after the call, the lines printed, and the value returned
  or the exception raised.
\<close>

definition summary_statistics ::
  "(string \<Rightarrow> rat option list \<Rightarrow> 'v) \<Rightarrow> (string \<Rightarrow> string option list \<Rightarrow> 'v)
    \<Rightarrow> dataframe \<Rightarrow> string list \<Rightarrow> dataframe \<times> string set list \<times> (error + 'v table)" where
  "summary_statistics nstat ostat df vars_of_interest =
     (let missing_vars = set vars_of_interest - set (columns df);
          out = (if missing_vars \<noteq> {} then [missing_vars] else []);
          available_vars = filter (\<lambda>v. v \<in> set (columns df)) vars_of_interest
      in case getitem_list df available_vars of
           Inl e \<Rightarrow> (df, out, Inl e)
         | Inr sel \<Rightarrow> (df, out, describe_T nstat ostat sel))"

section \<open>extreme_rank_countries\<close>

subsection \<open>\<open>rank(ascending=False)\<close>\<close>

text \<open>
  The defaults are \<open>method='average'\<close> and \<open>na_option='keep'\<close>: a missing value keeps
  a missing rank and takes no part in the ranking of the others. In the descending
  order of the present values, a value \<open>v\<close> occupies the positions \<open>g + 1, ..., g + e\<close>
  where \<open>g\<close> counts the present values greater than \<open>v\<close> and \<open>e\<close> those equal to it; its
  rank is the mean of these positions.
\<close>

fun present :: "'a option list \<Rightarrow> 'a list" where
  "present [] = []"
| "present (None # xs) = present xs"
| "present (Some v # xs) = v # present xs"

definition n_greater :: "('a::linorder) list \<Rightarrow> 'a \<Rightarrow> nat" where
  "n_greater vals v = length (filter (\<lambda>w. v < w) vals)"

definition n_equal :: "('a::linorder) list \<Rightarrow> 'a \<Rightarrow> nat" where
  "n_equal vals v = length (filter (\<lambda>w. w = v) vals)"

definition average_rank :: "('a::linorder) list \<Rightarrow> 'a \<Rightarrow> rat" where
  "average_rank vals v = of_nat (n_greater vals v) + (of_nat (n_equal vals v) + 1) / 2"

definition rank_desc :: "('a::linorder) option list \<Rightarrow> rat option list" where
  "rank_desc xs = map (map_option (average_rank (present xs))) xs"

fun rank_column :: "column \<Rightarrow> rat option list" where
  "rank_column (NumCol xs) = rank_desc xs"
| "rank_column (ObjCol xs) = rank_desc xs"

subsection \<open>Column assignment\<close>

text \<open>\<open>df[k] = c\<close> with a single column \<open>c\<close>: every column labelled \<open>k\<close> is replaced
  where it stands; when there is none, \<open>c\<close> is appended.\<close>

definition setitem :: "dataframe \<Rightarrow> string \<Rightarrow> column \<Rightarrow> dataframe" where
  "setitem df k c =
     (if k \<in> set (columns df) then map (\<lambda>(k', c'). if k' = k then (k', c) else (k', c')) df
      else df @ [(k, c)])"

text \<open>\<open>df[k] = f\<close> with a frame \<open>f\<close> of several columns: pandas accepts it only when as
  many columns are labelled \<open>k\<close>, and then replaces them one by one; otherwise it raises
  \<open>ValueError\<close> and the frame is left as it was.\<close>

fun replace_labelled :: "dataframe \<Rightarrow> string \<Rightarrow> column list \<Rightarrow> dataframe" where
  "replace_labelled [] k cs = []"
| "replace_labelled ((k', c') # df) k [] = (k', c') # df"
| "replace_labelled ((k', c') # df) k (c # cs) =
     (if k' = k then (k', c) # replace_labelled df k cs
      else (k', c') # replace_labelled df k (c # cs))"

definition setitem_frame :: "dataframe \<Rightarrow> string \<Rightarrow> column list \<Rightarrow> error + dataframe" where
  "setitem_frame df k cs =
     (if length (labelled df k) = length cs then Inr (replace_labelled df k cs)
      else Inl (ValueError FrameAsColumn))"

subsection \<open>Column subtraction\<close>

text \<open>
  NumPy subtracts two numeric columns element by element in float64; the rounded
  difference of two cells is the parameter \<open>fsub\<close>. A missing operand gives a missing
  result. All that the proofs use of \<open>fsub\<close> is \<open>float_sub_ok\<close>: on half-integers of
  magnitude at most \<open>2^51\<close>, whose difference float64 represents, the subtraction is
  exact.
\<close>

fun sub_opt :: "(rat \<Rightarrow> rat \<Rightarrow> rat) \<Rightarrow> rat option \<Rightarrow> rat option \<Rightarrow> rat option" where
  "sub_opt fsub (Some a) (Some b) = Some (fsub a b)"
| "sub_opt fsub a b = None"

definition half_integer :: "rat \<Rightarrow> bool" where
  "half_integer a \<longleftrightarrow> 2 * a \<in> \<int> \<and> \<bar>a\<bar> \<le> 2 ^ 51"

definition float_sub_ok :: "(rat \<Rightarrow> rat \<Rightarrow> rat) \<Rightarrow> bool" where
  "float_sub_ok fsub \<longleftrightarrow> (\<forall>a b. half_integer a \<and> half_integer b \<longrightarrow> fsub a b = a - b)"

text \<open>
  With a column of strings as an operand the subtraction raises \<open>TypeError\<close> as soon
  as one row has both operands present; rows where either is missing are skipped and
  give a missing value.
\<close>

fun both_present :: "column \<Rightarrow> column \<Rightarrow> bool list" where
  "both_present (NumCol xs) (NumCol ys) = map2 (\<lambda>x y. x \<noteq> None \<and> y \<noteq> None) xs ys"
| "both_present (NumCol xs) (ObjCol ys) = map2 (\<lambda>x y. x \<noteq> None \<and> y \<noteq> None) xs ys"
| "both_present (ObjCol xs) (NumCol ys) = map2 (\<lambda>x y. x \<noteq> None \<and> y \<noteq> None) xs ys"
| "both_present (ObjCol xs) (ObjCol ys) = map2 (\<lambda>x y. x \<noteq> None \<and> y \<noteq> None) xs ys"

fun sub_column :: "(rat \<Rightarrow> rat \<Rightarrow> rat) \<Rightarrow> column \<Rightarrow> column \<Rightarrow> error + rat option list" where
  "sub_column fsub (NumCol xs) (NumCol ys) = Inr (map2 (sub_opt fsub) xs ys)"
| "sub_column fsub c1 c2 =
     (if list_ex (\<lambda>b. b) (both_present c1 c2) then Inl TypeError
      else Inr (map (\<lambda>b. None) (both_present c1 c2)))"

subsection \<open>\<open>sort_values(..., ascending=False)\<close> and \<open>head\<close>\<close>

text \<open>
  pandas sorts one column through \<open>nargsort\<close> with \<open>kind='quicksort'\<close> and
  \<open>na_position='last'\<close>: the present values and their row positions are reversed,
  argsorted in ascending order by NumPy, the resulting positions are reversed again,
  and the rows with a missing value follow in their original order. NumPy's
  \<open>argsort\<close> is the parameter \<open>argsort\<close>; all that NumPy promises of its quicksort is
  \<open>argsort_ok\<close>: the result is a permutation of the positions that puts the values in
  ascending order (the kind is documented as not stable).
\<close>

definition argsort_ok :: "(rat list \<Rightarrow> nat list) \<Rightarrow> bool" where
  "argsort_ok argsort \<longleftrightarrow>
     (\<forall>xs. mset (argsort xs) = mset [0..<length xs] \<and> sorted (map (\<lambda>j. xs ! j) (argsort xs)))"

definition nargsort_desc :: "(rat list \<Rightarrow> nat list) \<Rightarrow> rat option list \<Rightarrow> nat list" where
  "nargsort_desc argsort items =
     (let idx = [0..<length items];
          non_nan_idx = rev (filter (\<lambda>i. items ! i \<noteq> None) idx);
          non_nans = map (\<lambda>i. the (items ! i)) non_nan_idx;
          nan_idx = filter (\<lambda>i. items ! i = None) idx;
          indexer = rev (map (\<lambda>j. non_nan_idx ! j) (argsort non_nans))
      in indexer @ nan_idx)"

text \<open>\<open>head(n)\<close> is the slice \<open>[:n]\<close>: a negative \<open>n\<close> drops the last \<open>-n\<close> rows.\<close>

definition head :: "int \<Rightarrow> 'a list \<Rightarrow> 'a list" where
  "head n xs = (if 0 \<le> n then take (nat n) xs else take (length xs - nat (- n)) xs)"

subsection \<open>The function\<close>

text \<open>A returned table: the labels (original positions) of its rows, and its columns
  restricted to these rows.\<close>

record result =
  row_labels :: "nat list"
  frame :: dataframe

fun select :: "column \<Rightarrow> nat list \<Rightarrow> column" where
  "select (NumCol xs) idx = NumCol (map (\<lambda>i. xs ! i) idx)"
| "select (ObjCol ss) idx = ObjCol (map (\<lambda>i. ss ! i) idx)"

definition take_rows :: "nat list \<Rightarrow> dataframe \<Rightarrow> result" where
  "take_rows idx df = \<lparr> row_labels = idx, frame = map (\<lambda>(k, c). (k, select c idx)) df \<rparr>"

text \<open>
  Line 74. \<open>df[rank_col2]\<close> is one column, or a frame when the label is repeated;
  \<open>rank\<close> ranks each of its columns, and the result is stored under \<open>rank_col2_calc\<close>
  in the caller's frame.
\<close>

definition assign_rank :: "dataframe \<Rightarrow> string \<Rightarrow> error + dataframe" where
  "assign_rank df rank_col2 =
     (case map (\<lambda>(k, c). rank_column c) (labelled df rank_col2) of
        [rk] \<Rightarrow> Inr (setitem df ''rank_col2_calc'' (NumCol rk))
      | ranked \<Rightarrow> setitem_frame df ''rank_col2_calc'' (map NumCol ranked))"

text \<open>
  Lines 75 to 77, on the frame left by line 74. \<open>temp[rank_col1]\<close> and
  \<open>temp['rank_col2_calc']\<close> are single columns only when the projection holds their
  label once; otherwise the difference is a frame and storing it as the one column
  \<open>rank_difference\<close> raises \<open>ValueError\<close>.
\<close>

definition rank_differences ::
  "(rat list \<Rightarrow> nat list) \<Rightarrow> (rat \<Rightarrow> rat \<Rightarrow> rat) \<Rightarrow> dataframe \<Rightarrow> string \<Rightarrow> int \<Rightarrow> error + result" where
  "rank_differences argsort fsub df rank_col1 top_n =
     (case getitem_list df [''cname'', rank_col1, ''rank_col2_calc''] of
        Inl e \<Rightarrow> Inl e
      | Inr temp \<Rightarrow>
          (case (labelled temp rank_col1, labelled temp ''rank_col2_calc'') of
             ([(k1, c1)], [(k2, c2)]) \<Rightarrow>
               (case sub_column fsub c1 c2 of
                  Inl e \<Rightarrow> Inl e
                | Inr diff \<Rightarrow>
                    Inr (take_rows (head top_n (nargsort_desc argsort diff))
                           (setitem temp ''rank_difference'' (NumCol diff))))
           | _ \<Rightarrow> Inl (ValueError FrameAsColumn)))"

text \<open>
  The frame is an object shared with the caller, so the model returns it as it is
  after the call, together with the value returned or the exception raised.
\<close>

definition extreme_rank_countries ::
  "(rat list \<Rightarrow> nat list) \<Rightarrow> (rat \<Rightarrow> rat \<Rightarrow> rat) \<Rightarrow> dataframe \<Rightarrow> string \<Rightarrow> string \<Rightarrow> int
     \<Rightarrow> dataframe \<times> (error + result)" where
  "extreme_rank_countries argsort fsub df rank_col1 rank_col2 top_n =
     (if rank_col2 \<notin> set (columns df) then (df, Inl (InvalidColumn rank_col2))
      else case assign_rank df rank_col2 of
        Inl e \<Rightarrow> (df, Inl e)
      | Inr df' \<Rightarrow> (df', rank_differences argsort fsub df' rank_col1 top_n))"

section \<open>Concrete instances used in the examples\<close>

text \<open>A sorting routine that meets \<open>argsort_ok\<close> and is stable (insertion sort on the
  positions), and the subtraction without rounding, which meets \<open>float_sub_ok\<close>.\<close>

definition stable_argsort :: "rat list \<Rightarrow> nat list" where
  "stable_argsort xs = sort_key (\<lambda>j. xs ! j) [0..<length xs]"

definition exact_sub :: "rat \<Rightarrow> rat \<Rightarrow> rat" where
  "exact_sub a b = a - b"

text \<open>A value of the measure parameters that carries no information.\<close>

definition no_stat :: "string \<Rightarrow> 'a list \<Rightarrow> unit" where
  "no_stat m xs = ()"

text \<open>The dataset of the specification's example.\<close>

definition example_frame :: dataframe where
  "example_frame =
     [(''cname'', ObjCol [Some ''A'', Some ''B'', Some ''C'']),
      (''rank1'', NumCol [Some 1, Some 2, Some 3]),
      (''rank2'', NumCol [Some 30, Some 10, Some 20])]"

definition tied_frame :: dataframe where
  "tied_frame =
     [(''cname'', ObjCol [Some ''A'', Some ''B'']),
      (''rank1'', NumCol [Some 1, Some 1]),
      (''rank2'', NumCol [Some 7, Some 7])]"

definition gap_frame :: dataframe where
  "gap_frame =
     [(''cname'', ObjCol [Some ''A'', Some ''B'']),
      (''rank1'', NumCol [Some 1, Some 2]),
      (''rank2'', NumCol [Some 5, None])]"




definition mixed_frame :: dataframe where
  "mixed_frame =
     [(''x'', NumCol [Some 1, Some 2]),
      (''s'', ObjCol [Some ''a'', Some ''b''])]"

section \<open>Notions used to state the properties\<close>

text \<open>The columns of a frame that carry a requested name, in the order of the
  request, and the columns of a frame other than the derived-rank column.\<close>

definition requested :: "dataframe \<Rightarrow> string list \<Rightarrow> dataframe" where
  "requested df L = concat (map (labelled df) L)"

definition numeric_in :: "dataframe \<Rightarrow> string \<Rightarrow> bool" where
  "numeric_in df v = list_ex (\<lambda>(k, c). is_numeric c) (labelled df v)"

definition other_columns :: "dataframe \<Rightarrow> dataframe" where
  "other_columns df = filter (\<lambda>(k, c). k \<noteq> ''rank_col2_calc'') df"



text \<open>
  The ranking in the words of the specification: sort the present values in descending
  order, number the positions from 1, and give a value the mean of the positions it
  occupies.
\<close>

definition positions_desc :: "('a::linorder) list \<Rightarrow> 'a \<Rightarrow> nat list" where
  "positions_desc vals v =
     map Suc (filter (\<lambda>i. rev (sort vals) ! i = v) [0..<length vals])"

definition mean_position :: "('a::linorder) list \<Rightarrow> 'a \<Rightarrow> rat" where
  "mean_position vals v =
     of_nat (sum_list (positions_desc vals v)) / of_nat (length (positions_desc vals v))"

text \<open>
  A fractional ranking \<open>rk\<close> of the values \<open>xs\<close>: a missing value has a missing rank, a
  present value has the mean of its positions, equal values have equal ranks, a value
  greater than all others has rank 1, and the ranks of the \<open>k\<close> present values sum to
  \<open>k (k + 1) / 2\<close>.
\<close>

definition fractional_ranking :: "('a::linorder) option list \<Rightarrow> rat option list \<Rightarrow> bool" where
  "fractional_ranking xs rk \<longleftrightarrow>
     length rk = length xs
     \<and> (\<forall>i < length xs. rk ! i = map_option (mean_position (present xs)) (xs ! i))
     \<and> (\<forall>i < length xs. \<forall>j < length xs. xs ! i = xs ! j \<longrightarrow> rk ! i = rk ! j)
     \<and> (\<forall>i < length xs. \<forall>v. xs ! i = Some v
           \<and> (\<forall>j < length xs. j \<noteq> i \<longrightarrow> (\<forall>w. xs ! j = Some w \<longrightarrow> w < v))
           \<longrightarrow> rk ! i = Some 1)
     \<and> sum_list (present rk)
         = of_nat (length (present xs)) * (of_nat (length (present xs)) + 1) / 2"

section \<open>Basic facts about the frame operations\<close>

lemma columns_labelled: "v \<in> set (columns df) \<longleftrightarrow> labelled df v \<noteq> []"
  by (induction df) (auto simp: columns_def labelled_def)

lemma labelled_absent: "v \<notin> set (columns df) \<Longrightarrow> labelled df v = []"
  by (simp add: columns_labelled)

lemma columns_map_of: "k \<in> set (columns df) \<longleftrightarrow> map_of df k \<noteq> None"
  by (simp add: columns_def map_of_eq_None_iff)

lemma distinct_labelled:
  "distinct (columns df) \<Longrightarrow> map_of df v = Some c \<Longrightarrow> labelled df v = [(v, c)]"
proof (induction df)
  case Nil
  then show ?case by simp
next
  case (Cons p df)
  obtain k c' where p: "p = (k, c')" by (cases p)
  show ?case
  proof (cases "k = v")
    case True
    with Cons.prems p have "v \<notin> set (columns df)" "c' = c" by (simp_all add: columns_def)
    with True p show ?thesis by (simp add: labelled_def labelled_absent [unfolded labelled_def])
  next
    case False
    with Cons p show ?thesis by (simp add: labelled_def columns_def)
  qed
qed

lemma getitem_list_present:
  "set vs \<subseteq> set (columns df) \<Longrightarrow> getitem_list df vs = Inr (requested df vs)"
  by (auto simp: getitem_list_def requested_def Let_def filter_empty_conv)

lemma getitem_list_error: "getitem_list df vs = Inl e \<Longrightarrow> \<exists>ms. e = KeyError ms"
  by (auto simp: getitem_list_def Let_def split: if_splits)

lemma requested_filter:
  "requested df (filter (\<lambda>v. v \<in> set (columns df)) L) = requested df L"
  by (induction L) (auto simp: requested_def labelled_absent)

lemma map_of_replace_other:
  "k' \<noteq> k \<Longrightarrow>
     map_of (map (\<lambda>(a, b). if a = k then (a, c) else (a, b)) df) k' = map_of df k'"
proof (induction df)
  case Nil
  then show ?case by simp
next
  case (Cons p df)
  obtain a b where "p = (a, b)" by (cases p)
  with Cons show ?case by simp
qed

lemma map_of_replace_same:
  "k \<in> set (columns df) \<Longrightarrow>
     map_of (map (\<lambda>(a, b). if a = k then (a, c) else (a, b)) df) k = Some c"
proof (induction df)
  case Nil
  then show ?case by (simp add: columns_def)
next
  case (Cons p df)
  obtain a b where p: "p = (a, b)" by (cases p)
  show ?case
  proof (cases "a = k")
    case True
    with p show ?thesis by simp
  next
    case False
    with Cons p show ?thesis by (simp add: columns_def)
  qed
qed

lemma map_of_setitem: "map_of (setitem df k c) = (map_of df)(k \<mapsto> c)"
proof (cases "k \<in> set (columns df)")
  case True
  have "map_of (setitem df k c) k' = ((map_of df)(k \<mapsto> c)) k'" for k'
    using True by (cases "k' = k") (simp_all add: setitem_def map_of_replace_same map_of_replace_other)
  then show ?thesis by (simp add: fun_eq_iff)
next
  case False
  then have "map_of df k = None" by (simp add: columns_map_of)
  with False have "map_of (setitem df k c) k' = ((map_of df)(k \<mapsto> c)) k'" for k'
    by (cases "k' = k") (simp_all add: setitem_def map_add_def split: option.splits)
  then show ?thesis by (simp add: fun_eq_iff)
qed

lemma columns_setitem:
  "columns (setitem df k c) = (if k \<in> set (columns df) then columns df else columns df @ [k])"
proof -
  have "map fst (map (\<lambda>(k', c'). if k' = k then (k', c) else (k', c')) df) = map fst df"
    by (induction df) auto
  then show ?thesis by (simp add: setitem_def columns_def)
qed

lemma other_columns_setitem: "other_columns (setitem df ''rank_col2_calc'' c) = other_columns df"
proof -
  have "other_columns (map (\<lambda>(k', c'). if k' = ''rank_col2_calc'' then (k', c) else (k', c')) df)
      = other_columns df"
    by (induction df) (auto simp: other_columns_def)
  then show ?thesis by (simp add: setitem_def) (simp add: other_columns_def)
qed

lemma other_columns_replace_labelled:
  "other_columns (replace_labelled df ''rank_col2_calc'' cs) = other_columns df"
  by (induction df "''rank_col2_calc''" cs rule: replace_labelled.induct)
     (auto simp: other_columns_def)

lemma other_columns_assign_rank:
  "assign_rank df rank_col2 = Inr df' \<Longrightarrow> other_columns df' = other_columns df"
  by (auto simp: assign_rank_def setitem_frame_def other_columns_setitem
      other_columns_replace_labelled split: list.splits if_splits)

lemma assign_rank_error: "assign_rank df rank_col2 = Inl e \<Longrightarrow> e = ValueError FrameAsColumn"
  by (auto simp: assign_rank_def setitem_frame_def split: list.splits if_splits)

lemma assign_rank_single:
  "labelled df rank_col2 = [(rank_col2, c2)] \<Longrightarrow>
     assign_rank df rank_col2 = Inr (setitem df ''rank_col2_calc'' (NumCol (rank_column c2)))"
  by (simp add: assign_rank_def)

lemma sub_column_error: "sub_column fsub c1 c2 = Inl e \<Longrightarrow> e = TypeError"
  by (cases "(fsub, c1, c2)" rule: sub_column.cases) (auto split: if_splits)

lemma sub_column_not_value: "sub_column fsub c1 c2 \<noteq> Inl (ValueError m)"
  using sub_column_error [of fsub c1 c2 "ValueError m"] by auto

lemma rank_differences_not_found:
  "rank_differences argsort fsub df rank_col1 top_n \<noteq> Inl (ValueError (NotFound c))"
proof
  assume a: "rank_differences argsort fsub df rank_col1 top_n = Inl (ValueError (NotFound c))"
  show False
  proof (cases "getitem_list df [''cname'', rank_col1, ''rank_col2_calc'']")
    case (Inl e)
    with a getitem_list_error [OF Inl] show False by (auto simp: rank_differences_def)
  next
    case (Inr temp)
    with a show False
      by (auto simp: rank_differences_def sub_column_not_value split: list.splits sum.splits)
  qed
qed

lemma erc_present_not_found:
  assumes "rank_col2 \<in> set (columns df)"
  shows "snd (extreme_rank_countries argsort fsub df rank_col1 rank_col2 top_n)
           \<noteq> Inl (ValueError (NotFound c))"
proof (cases "assign_rank df rank_col2")
  case (Inl e)
  with assms assign_rank_error [OF Inl] show ?thesis
    by (simp add: extreme_rank_countries_def)
next
  case (Inr df')
  with assms rank_differences_not_found show ?thesis
    by (simp add: extreme_rank_countries_def)
qed

section \<open>The column check of extreme_rank_countries\<close>

text \<open>
  C2 as stated fails: an invalid-column error is a \<open>ValueError\<close>, and the call also
  fails with a \<open>ValueError\<close> when \<open>rank_col2\<close> is a column, for instance on the
  example frame with \<open>rank_col1 = 'cname'\<close>.
\<close>

theorem erc_value_error_counterexample:
  "''rank2'' \<in> set (columns example_frame)
   \<and> snd (extreme_rank_countries stable_argsort exact_sub example_frame ''cname'' ''rank2'' 2)
       = Inl (ValueError FrameAsColumn)"
  by (simp add: extreme_rank_countries_def assign_rank_def rank_differences_def getitem_list_def
      labelled_def setitem_def columns_def example_frame_def)

text \<open>
  C2, amended: \<open>extreme_rank_countries\<close> raises its own error, the \<open>ValueError\<close> with
  the message \<open>"<rank_col2> not found in dataframe"\<close>, exactly when \<open>rank_col2\<close> is not a
  column of the frame; that failure is the outcome of the call, so no table is
  returned.
\<close>

theorem erc_invalid_column_iff:
  "((\<exists>c. snd (extreme_rank_countries argsort fsub df rank_col1 rank_col2 top_n)
            = Inl (ValueError (NotFound c)))
      \<longleftrightarrow> rank_col2 \<notin> set (columns df))
   \<and> (rank_col2 \<notin> set (columns df) \<longrightarrow>
         snd (extreme_rank_countries argsort fsub df rank_col1 rank_col2 top_n)
           = Inl (InvalidColumn rank_col2))"
proof (cases "rank_col2 \<in> set (columns df)")
  case False
  then show ?thesis by (simp add: extreme_rank_countries_def)
next
  case True
  with erc_present_not_found [OF True] show ?thesis by blast
qed

theorem erc_invalid_column_iff_witness:
  "(\<exists>c. snd (extreme_rank_countries stable_argsort exact_sub example_frame ''rank1'' ''gdp'' 2)
        = Inl (ValueError (NotFound c)))
   \<and> ''gdp'' \<notin> set (columns example_frame)
   \<and> snd (extreme_rank_countries stable_argsort exact_sub example_frame ''rank1'' ''gdp'' 2)
        = Inl (InvalidColumn ''gdp'')"
  using erc_invalid_column_iff [of stable_argsort exact_sub example_frame "''rank1''" "''gdp''" 2]
  by (simp add: columns_def example_frame_def)

text \<open>
  C10: when \<open>rank_col2\<close> is absent the call stops at the check: the outcome is the
  invalid-column error and the frame is exactly the one passed in, since the check
  comes before the assignment of the derived-rank column.
\<close>

theorem erc_absent_atomic:
  "rank_col2 \<notin> set (columns df) \<Longrightarrow>
     extreme_rank_countries argsort fsub df rank_col1 rank_col2 top_n
       = (df, Inl (InvalidColumn rank_col2))"
  by (simp add: extreme_rank_countries_def)

theorem erc_absent_atomic_witness:
  "''gdp'' \<notin> set (columns example_frame)
   \<and> extreme_rank_countries stable_argsort exact_sub example_frame ''rank1'' ''gdp'' 2
       = (example_frame, Inl (InvalidColumn ''gdp''))"
proof -
  have absent: "''gdp'' \<notin> set (columns example_frame)"
    by (simp add: columns_def example_frame_def)
  from erc_absent_atomic [OF absent] absent show ?thesis by simp
qed

section \<open>The warning of summary_statistics\<close>

text \<open>
  C8: a call of \<open>summary_statistics\<close> prints the missing-columns warning exactly once
  when some requested name is not a column, and that one line shows the whole set of
  absent names; it prints nothing when every requested name is a column.
\<close>

theorem warning_once:
  "fst (snd (summary_statistics nstat ostat df L)) =
     (if set L \<subseteq> set (columns df) then [] else [set L - set (columns df)])"
  by (auto simp: summary_statistics_def Let_def split: sum.splits)

theorem warning_once_witness:
  "fst (snd (summary_statistics no_stat no_stat mixed_frame [''x'', ''z'', ''w''])) = [{''z'', ''w''}]
   \<and> fst (snd (summary_statistics no_stat no_stat mixed_frame [''x'', ''s''])) = []"
  using warning_once [of no_stat no_stat mixed_frame "[''x'', ''z'', ''w'']"]
    warning_once [of no_stat no_stat mixed_frame "[''x'', ''s'']"]
  by (auto simp: columns_def mixed_frame_def)

section \<open>The table of summary_statistics\<close>

text \<open>
  C4, evaluated on the code: with the columns \<open>x\<close> and \<open>s\<close> and the single requested
  name \<open>z\<close>, no requested column is present; the call prints the warning and then
  fails inside \<open>describe\<close>, which refuses a frame without columns. No empty table is
  returned.
\<close>

theorem summary_none_present_raises:
  "summary_statistics no_stat no_stat mixed_frame [''z'']
     = (mixed_frame, [{''z''}], Inl DescribeNoColumns)"
  by (simp add: summary_statistics_def columns_def mixed_frame_def describe_T_def getitem_list_def)

lemma labelled_distinct_cases:
  "distinct (columns df) \<Longrightarrow>
     labelled df v = (case map_of df v of None \<Rightarrow> [] | Some c \<Rightarrow> [(v, c)])"
proof (cases "map_of df v")
  case None
  then have "v \<notin> set (columns df)" by (simp add: columns_map_of)
  with None show ?thesis by (simp add: labelled_absent)
next
  case (Some c)
  assume "distinct (columns df)"
  from distinct_labelled [OF this Some] Some show ?thesis by simp
qed

lemma numeric_requested:
  "(filter (\<lambda>(k, c). is_numeric c) (requested df L) \<noteq> []) \<longleftrightarrow> (\<exists>v \<in> set L. numeric_in df v)"
  by (auto simp: requested_def numeric_in_def filter_empty_conv list_ex_iff)

lemma requested_nonempty:
  "(requested df L \<noteq> []) \<longleftrightarrow> (\<exists>v \<in> set L. v \<in> set (columns df))"
  by (auto simp: requested_def columns_labelled)

lemma requested_labels_distinct:
  assumes "distinct (columns df)"
  shows "map fst (requested df L) = filter (\<lambda>v. v \<in> set (columns df)) L"
proof (induction L)
  case Nil
  then show ?case by (simp add: requested_def)
next
  case (Cons v L)
  have "map fst (labelled df v) = (if v \<in> set (columns df) then [v] else [])"
    by (simp add: labelled_distinct_cases [OF assms] columns_map_of split: option.splits)
  with Cons show ?case by (simp add: requested_def)
qed

lemma requested_numeric_distinct:
  assumes "distinct (columns df)"
  shows "map fst (filter (\<lambda>(k, c). is_numeric c) (requested df L)) = filter (numeric_in df) L"
proof (induction L)
  case Nil
  then show ?case by (simp add: requested_def)
next
  case (Cons v L)
  have "map fst (filter (\<lambda>(k, c). is_numeric c) (labelled df v))
      = (if numeric_in df v then [v] else [])"
    by (simp add: numeric_in_def labelled_distinct_cases [OF assms] split: option.splits)
  with Cons show ?case by (simp add: requested_def)
qed

lemma describe_1d_length:
  "length (describe_1d nstat ostat c)
     = length (if is_numeric c then numeric_measures else object_measures)"
  by (cases c) simp_all

lemma summary_result:
  "snd (snd (summary_statistics nstat ostat df L)) = describe_T nstat ostat (requested df L)"
proof -
  have "getitem_list df (filter (\<lambda>v. v \<in> set (columns df)) L)
      = Inr (requested df (filter (\<lambda>v. v \<in> set (columns df)) L))"
    by (rule getitem_list_present) auto
  then have "getitem_list df (filter (\<lambda>v. v \<in> set (columns df)) L) = Inr (requested df L)"
    by (simp only: requested_filter)
  then show ?thesis by (simp add: summary_statistics_def Let_def)
qed

section \<open>The rows of the summary table\<close>

text \<open>
  C3 as stated fails: \<open>s\<close> is requested and is a column of the frame, yet the table has
  a row for \<open>x\<close> only, because \<open>describe\<close> drops the non-numeric columns as soon as one
  numeric column is selected.
\<close>

theorem summary_rows_counterexample:
  "''s'' \<in> set [''x'', ''s''] \<inter> set (columns mixed_frame)
   \<and> snd (snd (summary_statistics no_stat no_stat mixed_frame [''x'', ''s'']))
       = Inr \<lparr> index = [''x''], measures = numeric_measures, cells = [[(), (), (), (), (), (), (), ()]] \<rparr>"
  by (simp add: summary_statistics_def columns_def mixed_frame_def describe_T_def
      numeric_measures_def getitem_list_def labelled_def)

text \<open>
  C3, amended: when at least one requested name is a column of the frame,
  \<open>summary_statistics\<close> returns a table. If one of the requested columns is numeric,
  its rows are the requested numeric columns and its columns the eight measures count,
  mean, std, min, 25%, 50%, 75%, max; if none is numeric, its rows are all the
  requested columns and its columns the four measures count, unique, top, freq. The
  rows follow the order of the request, one row for each time a name is requested and
  for each column carrying it; with unique column labels the row labels are the
  requested names that are (numeric) columns, filtered from the request in order.
\<close>

theorem summary_rows:
  assumes "\<exists>v \<in> set L. v \<in> set (columns df)"
  shows "\<exists>t. snd (snd (summary_statistics nstat ostat df L)) = Inr t
      \<and> (if \<exists>v \<in> set L. numeric_in df v
          then index t = map fst (filter (\<lambda>(k, c). is_numeric c) (requested df L))
               \<and> measures t = numeric_measures
          else index t = map fst (requested df L) \<and> measures t = object_measures)
      \<and> (distinct (columns df) \<longrightarrow>
            index t = (if \<exists>v \<in> set L. numeric_in df v then filter (numeric_in df) L
                       else filter (\<lambda>v. v \<in> set (columns df)) L))
      \<and> length (cells t) = length (index t)
      \<and> (\<forall>r \<in> set (cells t). length r = length (measures t))"
proof -
  define req where "req = requested df L"
  define num where "num = filter (\<lambda>(k, c). is_numeric c) req"
  define data where "data = (if num = [] then req else num)"
  define t where "t = \<lparr> index = map fst data,
      measures = (if num = [] then object_measures else numeric_measures),
      cells = map (\<lambda>(k, c). describe_1d nstat ostat c) data \<rparr>"
  from assms have ne: "req \<noteq> []" by (simp add: req_def requested_nonempty)
  have numiff: "num \<noteq> [] \<longleftrightarrow> (\<exists>v \<in> set L. numeric_in df v)"
    unfolding num_def req_def by (rule numeric_requested)
  have res: "snd (snd (summary_statistics nstat ostat df L)) = Inr t"
    using ne by (simp add: summary_result describe_T_def Let_def t_def data_def num_def req_def)
  have 1: "if \<exists>v \<in> set L. numeric_in df v
      then index t = map fst (filter (\<lambda>(k, c). is_numeric c) (requested df L))
           \<and> measures t = numeric_measures
      else index t = map fst (requested df L) \<and> measures t = object_measures"
  proof (cases "num = []")
    case True
    with numiff have "\<not> (\<exists>v \<in> set L. numeric_in df v)" by simp
    with True show ?thesis by (simp add: t_def data_def req_def)
  next
    case False
    with numiff have "\<exists>v \<in> set L. numeric_in df v" by simp
    with False show ?thesis by (simp add: t_def data_def num_def req_def)
  qed
  have 2: "index t = (if \<exists>v \<in> set L. numeric_in df v then filter (numeric_in df) L
        else filter (\<lambda>v. v \<in> set (columns df)) L)" if "distinct (columns df)"
    using 1 requested_labels_distinct [OF that] requested_numeric_distinct [OF that]
    by (simp split: if_splits)
  have 3: "length (cells t) = length (index t)" by (simp add: t_def)
  have 4: "length r = length (measures t)" if "r \<in> set (cells t)" for r
  proof -
    from that obtain k c where kc: "(k, c) \<in> set data" and r: "r = describe_1d nstat ostat c"
      by (auto simp: t_def)
    show ?thesis
    proof (cases "num = []")
      case True
      with kc have "(k, c) \<in> set req" "\<not> is_numeric c"
        by (auto simp: data_def num_def filter_empty_conv)
      with True r show ?thesis by (simp add: describe_1d_length t_def)
    next
      case False
      with kc have "is_numeric c" by (auto simp: data_def num_def)
      with False r show ?thesis by (simp add: describe_1d_length t_def)
    qed
  qed
  from res 1 2 3 4 show ?thesis by blast
qed

theorem summary_rows_witness:
  "(\<exists>v \<in> set [''z'', ''x'', ''s'']. v \<in> set (columns mixed_frame))
   \<and> distinct (columns mixed_frame)
   \<and> (\<exists>t. snd (snd (summary_statistics no_stat no_stat mixed_frame [''z'', ''x'', ''s''])) = Inr t
         \<and> index t = [''x''] \<and> measures t = numeric_measures)"
proof -
  have h: "\<exists>v \<in> set [''z'', ''x'', ''s'']. v \<in> set (columns mixed_frame)"
    by (auto simp: columns_def mixed_frame_def)
  have d: "distinct (columns mixed_frame)"
    by (simp add: columns_def mixed_frame_def)
  have "numeric_in mixed_frame ''x''"
    by (simp add: mixed_frame_def numeric_in_def labelled_def)
  then have n: "\<exists>v \<in> set [''z'', ''x'', ''s'']. numeric_in mixed_frame v"
    by simp
  have f: "filter (numeric_in mixed_frame) [''z'', ''x'', ''s''] = [''x'']"
    by (simp add: mixed_frame_def numeric_in_def labelled_def)
  from summary_rows [OF h, of no_stat no_stat] obtain t where
    res: "snd (snd (summary_statistics no_stat no_stat mixed_frame [''z'', ''x'', ''s''])) = Inr t"
    and a: "if \<exists>v \<in> set [''z'', ''x'', ''s'']. numeric_in mixed_frame v
     then index t = map fst (filter (\<lambda>(k, c). is_numeric c) (requested mixed_frame [''z'', ''x'', ''s'']))
          \<and> measures t = numeric_measures
     else index t = map fst (requested mixed_frame [''z'', ''x'', ''s'']) \<and> measures t = object_measures"
    and b: "distinct (columns mixed_frame) \<longrightarrow>
       index t = (if \<exists>v \<in> set [''z'', ''x'', ''s'']. numeric_in mixed_frame v
                  then filter (numeric_in mixed_frame) [''z'', ''x'', ''s'']
                  else filter (\<lambda>v. v \<in> set (columns mixed_frame)) [''z'', ''x'', ''s''])"
    by blast
  from a n have m: "measures t = numeric_measures" by (simp only: if_True)
  from b d n f have i: "index t = [''x'']" by (simp only: if_True)
  from res m i h d show ?thesis by blast
qed

lemma erc_frame_distinct:
  assumes "distinct (columns df)" and "map_of df rank_col2 = Some c2"
  shows "fst (extreme_rank_countries argsort fsub df rank_col1 rank_col2 top_n)
           = setitem df ''rank_col2_calc'' (NumCol (rank_column c2))"
proof -
  from assms(2) have "rank_col2 \<in> set (columns df)" by (simp add: columns_map_of)
  moreover from assms have "labelled df rank_col2 = [(rank_col2, c2)]"
    by (rule distinct_labelled)
  then have "assign_rank df rank_col2 = Inr (setitem df ''rank_col2_calc'' (NumCol (rank_column c2)))"
    by (rule assign_rank_single)
  ultimately show ?thesis by (simp add: extreme_rank_countries_def)
qed

lemma erc_other_columns:
  "other_columns (fst (extreme_rank_countries argsort fsub df rank_col1 rank_col2 top_n))
     = other_columns df"
  by (auto simp: extreme_rank_countries_def other_columns_assign_rank split: sum.splits)

section \<open>Effect on the caller's frame\<close>

text \<open>
  C1 as stated fails: after a successful call of \<open>extreme_rank_countries\<close> on the
  example frame, the caller's frame has a fourth column.
\<close>

theorem frame_counterexample:
  "fst (extreme_rank_countries stable_argsort exact_sub example_frame ''rank1'' ''rank2'' 2)
     \<noteq> example_frame"
  by (simp add: extreme_rank_countries_def assign_rank_def labelled_def setitem_def columns_def
      example_frame_def)

text \<open>
  C1, amended: \<open>summary_statistics\<close> leaves the caller's frame as it was.
  \<open>extreme_rank_countries\<close> leaves every column other than \<open>rank_col2_calc\<close> as it
  was, in the same order, and leaves the whole frame as it was when \<open>rank_col2\<close> is
  absent; when \<open>rank_col2\<close> is a column of a frame with unique labels, the call stores
  the derived rank of that column under \<open>rank_col2_calc\<close> in the caller's frame,
  replacing a column of that name or else adding one at the end.
\<close>

theorem frame_effect:
  "fst (summary_statistics nstat ostat df L) = df
   \<and> other_columns (fst (extreme_rank_countries argsort fsub df rank_col1 rank_col2 top_n))
       = other_columns df
   \<and> (rank_col2 \<notin> set (columns df) \<longrightarrow>
         fst (extreme_rank_countries argsort fsub df rank_col1 rank_col2 top_n) = df)
   \<and> (\<forall>c2. distinct (columns df) \<and> map_of df rank_col2 = Some c2 \<longrightarrow>
         map_of (fst (extreme_rank_countries argsort fsub df rank_col1 rank_col2 top_n))
           ''rank_col2_calc'' = Some (NumCol (rank_column c2))
         \<and> columns (fst (extreme_rank_countries argsort fsub df rank_col1 rank_col2 top_n))
             = (if ''rank_col2_calc'' \<in> set (columns df) then columns df
                else columns df @ [''rank_col2_calc'']))"
proof (intro conjI allI impI)
  show "fst (summary_statistics nstat ostat df L) = df"
    by (simp add: summary_statistics_def Let_def split: sum.splits)
  show "other_columns (fst (extreme_rank_countries argsort fsub df rank_col1 rank_col2 top_n))
      = other_columns df"
    by (rule erc_other_columns)
  show "fst (extreme_rank_countries argsort fsub df rank_col1 rank_col2 top_n) = df"
    if "rank_col2 \<notin> set (columns df)"
    using that by (simp add: extreme_rank_countries_def)
next
  fix c2
  assume a: "distinct (columns df) \<and> map_of df rank_col2 = Some c2"
  then have eq: "fst (extreme_rank_countries argsort fsub df rank_col1 rank_col2 top_n)
      = setitem df ''rank_col2_calc'' (NumCol (rank_column c2))"
    by (simp add: erc_frame_distinct)
  show "map_of (fst (extreme_rank_countries argsort fsub df rank_col1 rank_col2 top_n))
      ''rank_col2_calc'' = Some (NumCol (rank_column c2))"
    by (simp add: eq map_of_setitem)
  show "columns (fst (extreme_rank_countries argsort fsub df rank_col1 rank_col2 top_n))
      = (if ''rank_col2_calc'' \<in> set (columns df) then columns df
         else columns df @ [''rank_col2_calc''])"
    by (simp only: eq columns_setitem)
qed

theorem frame_effect_witness:
  "''gdp'' \<notin> set (columns example_frame)
   \<and> fst (extreme_rank_countries stable_argsort exact_sub example_frame ''rank1'' ''gdp'' 2)
       = example_frame
   \<and> distinct (columns example_frame)
   \<and> map_of example_frame ''rank2'' = Some (NumCol [Some 30, Some 10, Some 20])
   \<and> map_of (fst (extreme_rank_countries stable_argsort exact_sub example_frame ''rank1'' ''rank2'' 2))
        ''rank_col2_calc'' = Some (NumCol (rank_column (NumCol [Some 30, Some 10, Some 20])))"
proof -
  have 1: "''gdp'' \<notin> set (columns example_frame)" and 2: "distinct (columns example_frame)"
    and 3: "map_of example_frame ''rank2'' = Some (NumCol [Some 30, Some 10, Some 20])"
    by (simp_all add: columns_def example_frame_def)
  from frame_effect [of no_stat no_stat example_frame "[]" stable_argsort exact_sub "''rank1''" "''gdp''" 2] 1
  have 4: "fst (extreme_rank_countries stable_argsort exact_sub example_frame ''rank1'' ''gdp'' 2)
      = example_frame" by blast
  from frame_effect [of no_stat no_stat example_frame "[]" stable_argsort exact_sub "''rank1''" "''rank2''" 2] 2 3
  have 5: "map_of (fst (extreme_rank_countries stable_argsort exact_sub example_frame ''rank1'' ''rank2'' 2))
        ''rank_col2_calc'' = Some (NumCol (rank_column (NumCol [Some 30, Some 10, Some 20])))"
    by blast
  from 1 2 3 4 5 show ?thesis by blast
qed

section \<open>Sorting through the NumPy parameter\<close>

lemma stable_argsort_ok: "argsort_ok stable_argsort"
  by (simp add: argsort_ok_def stable_argsort_def)










lemma argsort_distinct_unique:
  assumes ok: "argsort_ok argsort" and dist: "distinct vals"
  shows "argsort vals = stable_argsort vals"
proof -
  define f where "f = (\<lambda>j. vals ! j)"
  define p where "p = argsort vals"
  define q where "q = stable_argsort vals"
  from ok have mp: "mset p = mset [0..<length vals]" and sp: "sorted (map f p)"
    by (simp_all only: argsort_ok_def p_def f_def)
  from stable_argsort_ok have mq: "mset q = mset [0..<length vals]" and sq: "sorted (map f q)"
    by (simp_all only: argsort_ok_def q_def f_def)
  from mp mq have "mset (map f p) = mset (map f q)" by (metis mset_map)
  with sp sq have eq: "map f p = map f q"
    by (metis properties_for_sort)
  from mp mq have sets: "set p = set [0..<length vals]" "set q = set [0..<length vals]"
    by (metis set_mset_mset)+
  have "inj_on f (set p \<union> set q)"
    unfolding f_def using dist by (intro inj_on_nth) (auto simp: sets)
  with eq have "p = q" by (simp add: inj_on_map_eq_map)
  then show ?thesis by (simp only: p_def q_def)
qed

lemma exact_sub_ok: "float_sub_ok exact_sub"
  by (simp add: float_sub_ok_def exact_sub_def)


section \<open>The successful path of extreme_rank_countries\<close>

lemma distinct_columns_setitem:
  "distinct (columns df) \<Longrightarrow> distinct (columns (setitem df k c))"
  by (simp add: columns_setitem)

lemma erc_valid:
  assumes d: "distinct (columns df)"
    and c2: "map_of df rank_col2 = Some c2"
    and cn: "map_of df ''cname'' = Some cn"
    and c1: "map_of df rank_col1 = Some c1"
    and ne: "rank_col1 \<noteq> ''cname''" "rank_col1 \<noteq> ''rank_col2_calc''"
  shows "snd (extreme_rank_countries argsort fsub df rank_col1 rank_col2 top_n) =
     (case sub_column fsub c1 (NumCol (rank_column c2)) of
        Inl e \<Rightarrow> Inl e
      | Inr diff \<Rightarrow>
          Inr (take_rows (head top_n (nargsort_desc argsort diff))
                 (setitem [(''cname'', cn), (rank_col1, c1),
                           (''rank_col2_calc'', NumCol (rank_column c2))]
                    ''rank_difference'' (NumCol diff))))"
proof -
  define rk where "rk = rank_column c2"
  define df' where "df' = setitem df ''rank_col2_calc'' (NumCol rk)"
  from c2 have p2: "rank_col2 \<in> set (columns df)" by (simp add: columns_map_of)
  have "labelled df rank_col2 = [(rank_col2, c2)]" using d c2 by (rule distinct_labelled)
  then have assign: "assign_rank df rank_col2 = Inr df'"
    unfolding df'_def rk_def by (rule assign_rank_single)
  have d': "distinct (columns df')" unfolding df'_def using d by (rule distinct_columns_setitem)
  have m: "map_of df' = (map_of df)(''rank_col2_calc'' \<mapsto> NumCol rk)"
    unfolding df'_def by (rule map_of_setitem)
  have l0: "labelled df' ''cname'' = [(''cname'', cn)]"
    using d' by (rule distinct_labelled) (simp add: m cn)
  have l1: "labelled df' rank_col1 = [(rank_col1, c1)]"
    using d' by (rule distinct_labelled) (simp add: m c1 ne)
  have l2: "labelled df' ''rank_col2_calc'' = [(''rank_col2_calc'', NumCol rk)]"
    using d' by (rule distinct_labelled) (simp add: m)
  have "set [''cname'', rank_col1, ''rank_col2_calc''] \<subseteq> set (columns df')"
    by (simp add: columns_map_of m cn c1)
  then have "getitem_list df' [''cname'', rank_col1, ''rank_col2_calc'']
      = Inr (requested df' [''cname'', rank_col1, ''rank_col2_calc''])"
    by (rule getitem_list_present)
  then have get: "getitem_list df' [''cname'', rank_col1, ''rank_col2_calc'']
      = Inr [(''cname'', cn), (rank_col1, c1), (''rank_col2_calc'', NumCol rk)]"
    by (simp add: requested_def l0 l1 l2)
  have t1: "labelled [(''cname'', cn), (rank_col1, c1), (''rank_col2_calc'', NumCol rk)] rank_col1
      = [(rank_col1, c1)]"
    using ne by (simp add: labelled_def)
  have t2: "labelled [(''cname'', cn), (rank_col1, c1), (''rank_col2_calc'', NumCol rk)]
      ''rank_col2_calc'' = [(''rank_col2_calc'', NumCol rk)]"
    using ne by (simp add: labelled_def)
  have rd: "rank_differences argsort fsub df' rank_col1 top_n =
     (case sub_column fsub c1 (NumCol rk) of
        Inl e \<Rightarrow> Inl e
      | Inr diff \<Rightarrow>
          Inr (take_rows (head top_n (nargsort_desc argsort diff))
                 (setitem [(''cname'', cn), (rank_col1, c1), (''rank_col2_calc'', NumCol rk)]
                    ''rank_difference'' (NumCol diff))))"
    by (simp add: rank_differences_def get t1 t2)
  from p2 assign show ?thesis
    by (simp add: extreme_rank_countries_def rd [unfolded rk_def])
qed

lemma example_nargsort:
  assumes "argsort_ok argsort"
  shows "nargsort_desc argsort [Some 0, Some (- 1), Some 1] = [2, 0, 1]"
proof -
  have idx: "[0..<3] = [0, 1, 2]" by (simp add: upt_rec)
  have "argsort [1, - 1, 0] = stable_argsort [1, - 1, 0]"
    using assms by (rule argsort_distinct_unique) simp
  also have "\<dots> = [1, 2, 0]" by (simp add: stable_argsort_def idx)
  finally show ?thesis by (simp add: nargsort_desc_def idx)
qed

lemma half_integer_small:
  "half_integer 1" "half_integer 2" "half_integer 3"
  by (simp_all add: half_integer_def)

section \<open>The rows returned by extreme_rank_countries\<close>

text \<open>
  C7: on the example frame with \<open>cname = [A, B, C]\<close>, \<open>rank1 = [1, 2, 3]\<close> and
  \<open>rank2 = [30, 10, 20]\<close>, the derived ranks are \<open>[1, 3, 2]\<close>, the rank differences
  are \<open>[0, -1, 1]\<close>, and the call with \<open>top_n = 2\<close> returns the row of C (difference
  1) and then the row of A (difference 0), whatever sorting routine NumPy provides.
\<close>

theorem example_result:
  assumes "argsort_ok argsort" and "float_sub_ok fsub"
  shows "rank_column (NumCol [Some 30, Some 10, Some 20]) = [Some 1, Some 3, Some 2]
    \<and> sub_column fsub (NumCol [Some 1, Some 2, Some 3]) (NumCol [Some 1, Some 3, Some 2])
        = Inr [Some 0, Some (- 1), Some 1]
    \<and> extreme_rank_countries argsort fsub example_frame ''rank1'' ''rank2'' 2 =
        (example_frame @ [(''rank_col2_calc'', NumCol [Some 1, Some 3, Some 2])],
         Inr \<lparr> row_labels = [2, 0],
               frame = [(''cname'', ObjCol [Some ''C'', Some ''A'']),
                        (''rank1'', NumCol [Some 3, Some 1]),
                        (''rank_col2_calc'', NumCol [Some 2, Some 1]),
                        (''rank_difference'', NumCol [Some 1, Some 0])] \<rparr>)"
proof -
  have rk: "rank_column (NumCol [Some 30, Some 10, Some 20]) = [Some 1, Some 3, Some 2]"
    by (simp add: rank_desc_def average_rank_def n_greater_def n_equal_def)
  then have rk': "rank_desc [Some 30, Some 10, Some (20::rat)] = [Some 1, Some 3, Some 2]"
    by simp
  from assms(2) have "fsub 1 1 = 1 - 1" "fsub 2 3 = 2 - 3" "fsub 3 2 = 3 - 2"
    unfolding float_sub_ok_def by (simp_all add: half_integer_small del: diff_numeral_special)
  then have f: "fsub 1 1 = 0" "fsub 2 3 = - 1" "fsub 3 2 = 1" by simp_all
  have sub: "sub_column fsub (NumCol [Some 1, Some 2, Some 3]) (NumCol [Some 1, Some 3, Some 2])
        = Inr [Some 0, Some (- 1), Some 1]"
    by (simp add: f)
  have d: "distinct (columns example_frame)" by (simp add: columns_def example_frame_def)
  have res: "snd (extreme_rank_countries argsort fsub example_frame ''rank1'' ''rank2'' 2) =
      Inr \<lparr> row_labels = [2, 0],
            frame = [(''cname'', ObjCol [Some ''C'', Some ''A'']),
                     (''rank1'', NumCol [Some 3, Some 1]),
                     (''rank_col2_calc'', NumCol [Some 2, Some 1]),
                     (''rank_difference'', NumCol [Some 1, Some 0])] \<rparr>"
    by (subst erc_valid [OF d, where ?c2.0 = "NumCol [Some 30, Some 10, Some 20]"
          and cn = "ObjCol [Some ''A'', Some ''B'', Some ''C'']"
          and ?c1.0 = "NumCol [Some 1, Some 2, Some 3]"])
       (simp_all add: example_frame_def rk' f example_nargsort [OF assms(1)] head_def
          take_rows_def setitem_def columns_def)
  have fr: "fst (extreme_rank_countries argsort fsub example_frame ''rank1'' ''rank2'' 2) =
      example_frame @ [(''rank_col2_calc'', NumCol [Some 1, Some 3, Some 2])]"
    by (subst erc_frame_distinct [OF d, where ?c2.0 = "NumCol [Some 30, Some 10, Some 20]"])
       (simp_all add: example_frame_def rk' setitem_def columns_def)
  from rk sub res fr show ?thesis by (simp add: prod_eq_iff)
qed

theorem example_result_witness:
  "argsort_ok stable_argsort \<and> float_sub_ok exact_sub
   \<and> snd (extreme_rank_countries stable_argsort exact_sub example_frame ''rank1'' ''rank2'' 2)
       = Inr \<lparr> row_labels = [2, 0],
               frame = [(''cname'', ObjCol [Some ''C'', Some ''A'']),
                        (''rank1'', NumCol [Some 3, Some 1]),
                        (''rank_col2_calc'', NumCol [Some 2, Some 1]),
                        (''rank_difference'', NumCol [Some 1, Some 0])] \<rparr>"
  using example_result [OF stable_argsort_ok exact_sub_ok] stable_argsort_ok exact_sub_ok by simp




section \<open>Average ranks\<close>

lemma present_map_option: "present (map (map_option f) xs) = map f (present xs)"
  by (induction xs rule: present.induct) auto

lemma count_if: "sum_list (map (\<lambda>w. if P w then 1 else 0) ys) = length (filter P ys)"
  by (induction ys) auto

lemma count_swap:
  "sum_list (map (\<lambda>v. length (filter (\<lambda>w. v < w) ys)) xs)
     = sum_list (map (\<lambda>w. length (filter (\<lambda>v. v < w) xs)) ys)"
proof (induction xs)
  case Nil
  then show ?case by simp
next
  case (Cons x xs)
  have "sum_list (map (\<lambda>w. length (filter (\<lambda>v. v < w) (x # xs))) ys)
      = sum_list (map (\<lambda>w. (if x < w then 1 else 0) + length (filter (\<lambda>v. v < w) xs)) ys)"
    by (rule arg_cong [where f = sum_list]) auto
  also have "\<dots> = length (filter (\<lambda>w. x < w) ys)
      + sum_list (map (\<lambda>w. length (filter (\<lambda>v. v < w) xs)) ys)"
    by (simp add: sum_list_addf count_if)
  finally show ?case using Cons.IH by simp
qed

lemma trichotomy_count:
  "length (filter (\<lambda>w. v < w) vals) + length (filter (\<lambda>w. w = v) vals)
     + length (filter (\<lambda>w. w < v) vals) = length vals" for v :: "'a::linorder"
  by (induction vals) auto

lemma twice_ranks_nat:
  "sum_list (map (\<lambda>v. 2 * n_greater vals v + n_equal vals v + 1) vals)
     = length vals * length vals + length vals"
proof -
  define G where "G = sum_list (map (\<lambda>v. length (filter (\<lambda>w. v < w) vals)) vals)"
  define E where "E = sum_list (map (\<lambda>v. length (filter (\<lambda>w. w = v) vals)) vals)"
  define L where "L = sum_list (map (\<lambda>v. length (filter (\<lambda>w. w < v) vals)) vals)"
  have "G = L" unfolding G_def L_def by (rule count_swap)
  have "sum_list (map (\<lambda>v. length (filter (\<lambda>w. v < w) vals) + length (filter (\<lambda>w. w = v) vals)
      + length (filter (\<lambda>w. w < v) vals)) vals) = sum_list (map (\<lambda>v. length vals) vals)"
    by (simp only: trichotomy_count)
  then have "G + E + L = length vals * length vals"
    by (simp add: sum_list_addf G_def E_def L_def sum_list_triv)
  with \<open>G = L\<close> have "2 * G + E = length vals * length vals" by simp
  moreover have "sum_list (map (\<lambda>v. 2 * n_greater vals v + n_equal vals v + 1) us)
      = 2 * sum_list (map (\<lambda>v. length (filter (\<lambda>w. v < w) vals)) us)
        + sum_list (map (\<lambda>v. length (filter (\<lambda>w. w = v) vals)) us) + length us" for us
    by (induction us) (simp_all add: n_greater_def n_equal_def)
  then have "sum_list (map (\<lambda>v. 2 * n_greater vals v + n_equal vals v + 1) vals)
      = 2 * G + E + length vals"
    by (simp only: G_def E_def)
  ultimately show ?thesis by simp
qed

lemma twice_average_rank:
  "2 * sum_list (map (average_rank vals) us)
     = of_nat (sum_list (map (\<lambda>v. 2 * n_greater vals v + n_equal vals v + 1) us))"
  by (induction us) (auto simp: average_rank_def algebra_simps)

lemma sum_average_rank:
  "sum_list (map (average_rank vals) vals) = of_nat (length vals) * (of_nat (length vals) + 1) / 2"
proof -
  have "2 * sum_list (map (average_rank vals) vals)
      = of_nat (length vals * length vals + length vals)"
    by (simp only: twice_average_rank twice_ranks_nat)
  then show ?thesis by (simp add: algebra_simps)
qed

lemma sum_rank_desc:
  "sum_list (present (rank_desc xs))
     = of_nat (length (present xs)) * (of_nat (length (present xs)) + 1) / 2"
  by (simp only: rank_desc_def present_map_option sum_average_rank)

lemma desc_partition:
  "sorted_wrt (\<lambda>a b. b \<le> a) ys \<Longrightarrow>
     filter (\<lambda>w. v < w) ys @ filter (\<lambda>w. w = v) ys @ filter (\<lambda>w. w < v) ys = ys"
  for v :: "'a::linorder"
proof (induction ys)
  case Nil
  then show ?case by simp
next
  case (Cons y ys)
  then have le: "\<forall>w \<in> set ys. w \<le> y"
    and IH: "filter (\<lambda>w. v < w) ys @ filter (\<lambda>w. w = v) ys @ filter (\<lambda>w. w < v) ys = ys"
    by simp_all
  consider "v < y" | "y = v" | "y < v" by (metis less_linear)
  then have "filter (\<lambda>w. v < w) (y # ys) @ filter (\<lambda>w. w = v) (y # ys) @ filter (\<lambda>w. w < v) (y # ys)
      = y # (filter (\<lambda>w. v < w) ys @ filter (\<lambda>w. w = v) ys @ filter (\<lambda>w. w < v) ys)"
  proof cases
    case 1
    then show ?thesis by auto
  next
    case 2
    with le have "filter (\<lambda>w. v < w) ys = []" by (auto simp: filter_empty_conv)
    with 2 show ?thesis by simp
  next
    case 3
    with le have "filter (\<lambda>w. v < w) ys = []" "filter (\<lambda>w. w = v) ys = []"
      by (auto simp: filter_empty_conv)
    with 3 show ?thesis by auto
  qed
  then show ?case by (simp only: IH)
qed

lemma length_filter_mset: "mset xs = mset ys \<Longrightarrow> length (filter P xs) = length (filter P ys)"
  by (metis mset_filter size_mset)

lemma filter_upt_block:
  assumes A: "\<forall>x \<in> set A. x \<noteq> v" and B: "\<forall>x \<in> set B. x = v" and C: "\<forall>x \<in> set C. x \<noteq> v"
  shows "filter (\<lambda>i. (A @ B @ C) ! i = v) [0..<length (A @ B @ C)]
           = [length A..<length A + length B]"
proof -
  let ?P = "\<lambda>i. (A @ B @ C) ! i = v"
  have split: "[0..<length (A @ B @ C)]
      = [0..<length A] @ [length A..<length A + length B]
        @ [length A + length B..<length A + length B + length C]"
  proof -
    have "[0..<length A + (length B + length C)]
        = [0..<length A] @ [length A..<length A + (length B + length C)]"
      by (rule upt_add_eq_append) simp
    moreover have "[length A..<length A + length B + length C]
        = [length A..<length A + length B] @ [length A + length B..<length A + length B + length C]"
      by (rule upt_add_eq_append) simp
    ultimately show ?thesis by (simp only: length_append add.assoc)
  qed
  have p1: "\<not> ?P i" if "i < length A" for i
  proof -
    from that have "(A @ B @ C) ! i = A ! i" by (simp add: nth_append)
    moreover from that have "A ! i \<in> set A" by simp
    ultimately show ?thesis using A by metis
  qed
  have p2: "?P i" if "length A \<le> i" "i < length A + length B" for i
  proof -
    from that have lt: "i - length A < length B" by arith
    with that have "(A @ B @ C) ! i = B ! (i - length A)" by (simp add: nth_append)
    moreover from lt have "B ! (i - length A) \<in> set B" by simp
    ultimately show ?thesis using B by metis
  qed
  have p3: "\<not> ?P i" if "length A + length B \<le> i" "i < length A + length B + length C" for i
  proof -
    from that have lt: "i - length A - length B < length C" by arith
    from that have "\<not> i < length A" "\<not> i - length A < length B" by arith+
    then have "(A @ B @ C) ! i = C ! (i - length A - length B)" by (simp add: nth_append)
    moreover from lt have "C ! (i - length A - length B) \<in> set C" by simp
    ultimately show ?thesis using C by metis
  qed
  have 1: "filter ?P [0..<length A] = []"
    unfolding filter_empty_conv using p1 by simp
  have 2: "filter ?P [length A..<length A + length B] = [length A..<length A + length B]"
    unfolding filter_id_conv using p2 by simp
  have 3: "filter ?P [length A + length B..<length A + length B + length C] = []"
    unfolding filter_empty_conv using p3 by simp
  show ?thesis by (simp only: split filter_append 1 2 3 append_Nil append_Nil2)
qed

lemma positions_desc_block:
  "positions_desc vals v = map Suc [n_greater vals v..<n_greater vals v + n_equal vals v]"
proof -
  define ys where "ys = rev (sort vals)"
  define A where "A = filter (\<lambda>w. v < w) ys"
  define B where "B = filter (\<lambda>w. w = v) ys"
  define C where "C = filter (\<lambda>w. w < v) ys"
  have "sorted_wrt (\<lambda>a b. b \<le> a) ys"
    by (simp add: ys_def sorted_wrt_rev)
  then have ys: "A @ B @ C = ys" unfolding A_def B_def C_def by (rule desc_partition)
  have m: "mset ys = mset vals" by (simp add: ys_def)
  have lenA: "length A = n_greater vals v"
    unfolding A_def n_greater_def using m by (rule length_filter_mset)
  have lenB: "length B = n_equal vals v"
    unfolding B_def n_equal_def using m by (rule length_filter_mset)
  have len: "length ys = length vals" by (simp add: ys_def)
  have "filter (\<lambda>i. (A @ B @ C) ! i = v) [0..<length (A @ B @ C)]
      = [length A..<length A + length B]"
    by (rule filter_upt_block) (auto simp: A_def B_def C_def)
  then have "filter (\<lambda>i. ys ! i = v) [0..<length vals]
      = [n_greater vals v..<n_greater vals v + n_equal vals v]"
    by (simp only: ys len lenA lenB)
  then show ?thesis by (simp only: positions_desc_def ys_def)
qed

lemma twice_sum_block: "2 * sum_list (map Suc [g..<g + e]) = e * (2 * g + e + 1)"
  by (induction e) (simp_all add: algebra_simps)

lemma mean_position_eq:
  assumes "v \<in> set vals"
  shows "mean_position vals v = average_rank vals v"
proof -
  define g where "g = n_greater vals v"
  define e where "e = n_equal vals v"
  from assms have "filter (\<lambda>w. w = v) vals \<noteq> []" by (auto simp: filter_empty_conv)
  then have pos: "0 < e" by (simp add: e_def n_equal_def)
  have "(2::rat) * of_nat (sum_list (map Suc [g..<g + e])) = of_nat (2 * sum_list (map Suc [g..<g + e]))"
    by simp
  also have "\<dots> = of_nat e * (2 * of_nat g + of_nat e + 1)"
    by (simp only: twice_sum_block of_nat_mult of_nat_add of_nat_numeral of_nat_1)
  finally have "(of_nat (sum_list (map Suc [g..<g + e])) :: rat) = of_nat e * (2 * of_nat g + of_nat e + 1) / 2"
    by simp
  then have "mean_position vals v = (of_nat e * (2 * of_nat g + of_nat e + 1) / 2) / of_nat e"
    by (simp add: mean_position_def positions_desc_block g_def e_def)
  also have "\<dots> = of_nat g + (of_nat e + 1) / 2"
    using pos by (simp add: field_simps)
  finally show ?thesis by (simp add: average_rank_def g_def e_def)
qed

lemma set_present: "set (present xs) = {v. Some v \<in> set xs}"
  by (induction xs rule: present.induct) auto

lemma present_append: "present (xs @ ys) = present xs @ present ys"
  by (induction xs rule: present.induct) auto

lemma unique_maximum_counts:
  assumes i: "i < length xs" and v: "xs ! i = Some v"
    and others: "\<forall>j < length xs. j \<noteq> i \<longrightarrow> (\<forall>w. xs ! j = Some w \<longrightarrow> w < v)"
  shows "n_greater (present xs) v = 0 \<and> n_equal (present xs) v = 1"
proof -
  have split: "xs = take i xs @ Some v # drop (Suc i) xs"
    using i v by (metis id_take_nth_drop)
  have before: "w < v" if "w \<in> set (present (take i xs))" for w
  proof -
    from that have "Some w \<in> set (take i xs)" by (simp add: set_present)
    then obtain j where "j < length (take i xs)" "take i xs ! j = Some w"
      by (auto simp: in_set_conv_nth)
    then have "j < i" "j < length xs" "xs ! j = Some w" using i by simp_all
    with others show ?thesis by auto
  qed
  have after: "w < v" if "w \<in> set (present (drop (Suc i) xs))" for w
  proof -
    from that have "Some w \<in> set (drop (Suc i) xs)" by (simp add: set_present)
    then obtain j where "j < length (drop (Suc i) xs)" "drop (Suc i) xs ! j = Some w"
      by (auto simp: in_set_conv_nth)
    then have "Suc i + j < length xs" "xs ! (Suc i + j) = Some w" "Suc i + j \<noteq> i"
      using i by simp_all
    with others show ?thesis by blast
  qed
  have p: "present xs = present (take i xs) @ v # present (drop (Suc i) xs)"
    by (subst split) (simp add: present_append)
  have b: "\<not> v < w \<and> w \<noteq> v" if "w \<in> set (present (take i xs))" for w
    using before [OF that] by auto
  have a: "\<not> v < w \<and> w \<noteq> v" if "w \<in> set (present (drop (Suc i) xs))" for w
    using after [OF that] by auto
  have "filter (\<lambda>w. v < w) (present xs) = []"
    using a b by (subst p) (auto simp: filter_empty_conv)
  moreover have "filter (\<lambda>w. w = v) (present xs) = [v]"
    using a b by (subst p) (auto simp: filter_empty_conv)
  ultimately show ?thesis by (simp add: n_greater_def n_equal_def)
qed

lemma rank_desc_fractional: "fractional_ranking xs (rank_desc xs)"
proof -
  define rk where "rk = rank_desc xs"
  have len: "length rk = length xs" by (simp add: rk_def rank_desc_def)
  have nth: "rk ! i = map_option (average_rank (present xs)) (xs ! i)" if "i < length xs" for i
    using that by (simp add: rk_def rank_desc_def)
  have mean: "rk ! i = map_option (mean_position (present xs)) (xs ! i)" if "i < length xs" for i
  proof (cases "xs ! i")
    case None
    with nth [OF that] show ?thesis by simp
  next
    case (Some v)
    with that have "Some v \<in> set xs" by (metis nth_mem)
    then have "v \<in> set (present xs)" by (simp add: set_present)
    then have "mean_position (present xs) v = average_rank (present xs) v"
      by (rule mean_position_eq)
    with nth [OF that] Some show ?thesis by simp
  qed
  have ties: "rk ! i = rk ! j" if "i < length xs" "j < length xs" "xs ! i = xs ! j" for i j
    using that nth by simp
  have top: "rk ! i = Some 1"
    if "i < length xs" "xs ! i = Some v"
      "\<forall>j < length xs. j \<noteq> i \<longrightarrow> (\<forall>w. xs ! j = Some w \<longrightarrow> w < v)" for i v
    using unique_maximum_counts [OF that] nth [OF that(1)] that(2)
    by (simp add: average_rank_def)
  have total: "sum_list (present rk)
      = of_nat (length (present xs)) * (of_nat (length (present xs)) + 1) / 2"
    unfolding rk_def by (rule sum_rank_desc)
  show ?thesis
    unfolding fractional_ranking_def rk_def [symmetric]
    using len mean ties top total by blast
qed

lemma rank_column_fractional:
  "(\<forall>xs. c2 = NumCol xs \<longrightarrow> fractional_ranking xs (rank_column c2))
   \<and> (\<forall>ss. c2 = ObjCol ss \<longrightarrow> fractional_ranking ss (rank_column c2))"
  by (cases c2) (simp_all add: rank_desc_fractional)



section \<open>The derived rank\<close>

text \<open>
  C6 as stated fails. On \<open>gap_frame\<close> the second value of \<open>rank2\<close> is missing: its
  rank is missing too, and the ranks over the two rows sum to 1, not to \<open>2 (2 + 1) / 2\<close>.
  On \<open>tied_frame\<close> the largest value 7 occurs twice and receives the rank \<open>3/2\<close>, not 1.
\<close>

theorem derived_rank_counterexample:
  "map_of (fst (extreme_rank_countries stable_argsort exact_sub gap_frame ''rank1'' ''rank2'' 2))
      ''rank_col2_calc'' = Some (NumCol [Some 1, None])
   \<and> nrows gap_frame = 2
   \<and> sum_list (present [Some 1, None]) \<noteq> (2 * (2 + 1) / 2 :: rat)
   \<and> map_of (fst (extreme_rank_countries stable_argsort exact_sub tied_frame ''rank1'' ''rank2'' 2))
      ''rank_col2_calc'' = Some (NumCol [Some (3 / 2), Some (3 / 2)])"
proof -
  have "fst (extreme_rank_countries stable_argsort exact_sub gap_frame ''rank1'' ''rank2'' 2)
      = setitem gap_frame ''rank_col2_calc'' (NumCol (rank_column (NumCol [Some 5, None])))"
    by (rule erc_frame_distinct) (simp_all add: gap_frame_def columns_def)
  moreover have "rank_column (NumCol [Some 5, None]) = [Some 1, None]"
    by (simp add: rank_desc_def average_rank_def n_greater_def n_equal_def)
  moreover have "fst (extreme_rank_countries stable_argsort exact_sub tied_frame ''rank1'' ''rank2'' 2)
      = setitem tied_frame ''rank_col2_calc'' (NumCol (rank_column (NumCol [Some 7, Some 7])))"
    by (rule erc_frame_distinct) (simp_all add: tied_frame_def columns_def)
  moreover have "rank_column (NumCol [Some 7, Some 7]) = [Some (3 / 2), Some (3 / 2)]"
    by (simp add: rank_desc_def average_rank_def n_greater_def n_equal_def)
  ultimately show ?thesis by (simp add: map_of_setitem nrows_def gap_frame_def)
qed

text \<open>
  C6, amended: when \<open>rank_col2\<close> is a column of a frame with unique labels, the rank
  that \<open>extreme_rank_countries\<close> stores under \<open>rank_col2_calc\<close> is a fractional ranking
  of the present values of that column in descending order: a missing value has a
  missing rank; a present value has the mean of the positions it occupies, so equal
  values have identical ranks; a value greater than all others has rank 1; and the
  ranks of the \<open>k\<close> present values sum to \<open>k (k + 1) / 2\<close>.
\<close>

theorem derived_rank_fractional:
  assumes "distinct (columns df)" and "map_of df rank_col2 = Some c2"
  shows "\<exists>rk. map_of (fst (extreme_rank_countries argsort fsub df rank_col1 rank_col2 top_n))
              ''rank_col2_calc'' = Some (NumCol rk)
      \<and> (\<forall>xs. c2 = NumCol xs \<longrightarrow> fractional_ranking xs rk)
      \<and> (\<forall>ss. c2 = ObjCol ss \<longrightarrow> fractional_ranking ss rk)"
proof -
  have "map_of (fst (extreme_rank_countries argsort fsub df rank_col1 rank_col2 top_n))
      ''rank_col2_calc'' = Some (NumCol (rank_column c2))"
    by (simp add: erc_frame_distinct [OF assms] map_of_setitem)
  with rank_column_fractional [of c2] show ?thesis by blast
qed

theorem derived_rank_fractional_witness:
  "distinct (columns example_frame)
   \<and> map_of example_frame ''rank2'' = Some (NumCol [Some 30, Some 10, Some 20])
   \<and> (\<exists>rk. map_of (fst (extreme_rank_countries stable_argsort exact_sub example_frame ''rank1'' ''rank2'' 2))
              ''rank_col2_calc'' = Some (NumCol rk)
         \<and> fractional_ranking [Some 30, Some 10, Some (20::rat)] rk)"
proof -
  have d: "distinct (columns example_frame)"
    and h: "map_of example_frame ''rank2'' = Some (NumCol [Some 30, Some 10, Some 20])"
    by (simp_all add: example_frame_def columns_def)
  from derived_rank_fractional [OF d h, of stable_argsort exact_sub "''rank1''" 2]
  obtain rk where
    "map_of (fst (extreme_rank_countries stable_argsort exact_sub example_frame ''rank1'' ''rank2'' 2))
       ''rank_col2_calc'' = Some (NumCol rk)"
    and "\<forall>xs. NumCol [Some 30, Some 10, Some 20] = NumCol xs \<longrightarrow> fractional_ranking xs rk"
    by (elim exE conjE)
  then have "map_of (fst (extreme_rank_countries stable_argsort exact_sub example_frame ''rank1'' ''rank2'' 2))
       ''rank_col2_calc'' = Some (NumCol rk)
     \<and> fractional_ranking [Some 30, Some 10, Some (20::rat)] rk"
    by blast
  then have "\<exists>rk. map_of (fst (extreme_rank_countries stable_argsort exact_sub example_frame ''rank1'' ''rank2'' 2))
       ''rank_col2_calc'' = Some (NumCol rk)
     \<and> fractional_ranking [Some 30, Some 10, Some (20::rat)] rk"
    by (rule exI)
  with d h show ?thesis by (intro conjI)
qed

section \<open>Repeated calls\<close>



end
